theory Spec2Isabelle
  imports Complex_Main "HOL-Library.Sublist"
begin

unbundle bit_operations_syntax

section \<open>Contour extraction (imgproc/contours.cpp)\<close>

subsection \<open>Data model\<close>

text \<open>
  A cell code is the four-bit value produced by \<open>getFlags\<close>; the source's
  enumerators \<open>b0000 .. b1111\<close> are the numbers 0 .. 15. C++ \<open>int\<close> is modelled
  by unbounded \<open>int\<close>: lattice coordinates are twice a pixel index and pixel
  indices are bounded by the raster held in memory.
\<close>

type_synonym CellType = nat

datatype Direction = r | l | u | d | lu | ld | ru | rd

type_synonym Vertex = "int \<times> int"

text \<open>
  Segments live in the node-stable \<open>SegmentMap\<close>; a \<open>const Segment *\<close> is modelled
  as the position of the segment in the store (insertion order), \<open>nullptr\<close> as
  \<open>None\<close>.
\<close>

record Segment =
  type :: CellType
  direction :: Direction
  start :: Vertex
  endp :: Vertex
  prev :: "nat option"
  nxt :: "nat option"
  ringLeader :: "nat option"

text \<open>
  Modelled from the spec: the raster / border bitmap type (\<open>Contour::Raster\<close>,
  \<open>Contour::border\<close>; declared in contours.hpp and rastermask.hpp, which are not
  among the sources). A bitmap has the raster's dimensions, \<open>get\<close> returns 0
  outside \<open>[0,W) \<times> [0,H)\<close>, and a bit outside the bitmap cannot be set.
\<close>

record RasterMask =
  width :: int
  height :: int
  bits :: "(int \<times> int) set"

definition in_range :: "RasterMask \<Rightarrow> int \<Rightarrow> int \<Rightarrow> bool" where
  "in_range m x y = (0 \<le> x \<and> x < width m \<and> 0 \<le> y \<and> y < height m)"

definition mask_get :: "RasterMask \<Rightarrow> int \<Rightarrow> int \<Rightarrow> bool" where
  "mask_get m x y = (in_range m x y \<and> (x, y) \<in> bits m)"

definition mask_set :: "RasterMask \<Rightarrow> int \<Rightarrow> int \<Rightarrow> RasterMask" where
  "mask_set m x y = (if in_range m x y then m\<lparr>bits := insert (x, y) (bits m)\<rparr> else m)"

definition empty_mask :: "int \<Rightarrow> int \<Rightarrow> RasterMask" where
  "empty_mask w h = \<lparr>width = w, height = h, bits = {}\<rparr>"

type_synonym Point2d = "real \<times> real"

type_synonym Polygon = "Point2d list"

record Contour =
  rings :: "Polygon list"
  border :: RasterMask

datatype PixelOrigin = center | corner

text \<open>
  The parameters of \<open>FindContour\<close> together with its virtual
  \<open>ambiguousType\<close> policy (the oracle for the two saddle codes).
\<close>

record FindContour =
  pixelOrigin :: PixelOrigin
  joinStraightSegments :: bool
  ambiguousType :: "Vertex \<Rightarrow> CellType \<Rightarrow> CellType"

record Builder =
  segments :: "Segment list"
  contour :: Contour
  offset :: Point2d

definition new_Builder :: "FindContour \<Rightarrow> int \<times> int \<Rightarrow> Builder" where
  "new_Builder cf rasterSize =
     \<lparr>segments = [],
      contour = \<lparr>rings = [], border = empty_mask (fst rasterSize) (snd rasterSize)\<rparr>,
      offset = (if pixelOrigin cf = center then (0, 0) else (0.5, 0.5))\<rparr>"

text \<open>
  Outcomes other than a normal return: the \<open>std::runtime_error\<close> thrown by
  \<open>extract\<close>, a dereference of \<open>nullptr\<close> or of a past-the-end iterator, and a
  loop that never ends.
\<close>

datatype error = RuntimeError | NullDereference | NonTermination

fun bind_e :: "error + 'a \<Rightarrow> ('a \<Rightarrow> error + 'b) \<Rightarrow> error + 'b" where
  "bind_e (Inl e) f = Inl e"
| "bind_e (Inr x) f = f x"

fun for_each :: "'a list \<Rightarrow> ('a \<Rightarrow> 's \<Rightarrow> error + 's) \<Rightarrow> 's \<Rightarrow> error + 's" where
  "for_each [] body s = Inr s"
| "for_each (x # xs) body s = bind_e (body x s) (for_each xs body)"

subsection \<open>Lookup in the two unique indices\<close>

fun find_idx :: "('a \<Rightarrow> bool) \<Rightarrow> 'a list \<Rightarrow> nat option" where
  "find_idx P [] = None"
| "find_idx P (x # xs) = (if P x then Some 0 else map_option Suc (find_idx P xs))"

definition findByStart :: "Segment list \<Rightarrow> Vertex \<Rightarrow> nat option" where
  "findByStart segs v = find_idx (\<lambda>s. start s = v) segs"

definition findByEnd :: "Segment list \<Rightarrow> Vertex \<Rightarrow> nat option" where
  "findByEnd segs v = find_idx (\<lambda>s. endp s = v) segs"

text \<open>
  \<open>segments.insert(x).first\<close>: both indices are \<open>ordered_unique\<close>. The index on
  \<open>start\<close> is asked first, then the index on \<open>end\<close>; when either already holds the
  key nothing is inserted and the segment that blocked the insertion is
  returned.
\<close>

definition insert_segment :: "Segment \<Rightarrow> Segment list \<Rightarrow> nat \<times> Segment list" where
  "insert_segment x segs =
     (case findByStart segs (start x) of
        Some k \<Rightarrow> (k, segs)
      | None \<Rightarrow>
          (case findByEnd segs (endp x) of
             Some k \<Rightarrow> (k, segs)
           | None \<Rightarrow> (length segs, segs @ [x])))"

subsection \<open>setBorder\<close>

definition SET_BORDER :: "int \<Rightarrow> int \<Rightarrow> int \<times> int \<Rightarrow> Builder \<Rightarrow> Builder" where
  "SET_BORDER i j XY cb =
     cb\<lparr>contour := (contour cb)\<lparr>border := mask_set (border (contour cb)) (i + fst XY) (j + snd XY)\<rparr>\<rparr>"

text \<open>The \<open>SET_BORDER\<close> invocations of each \<open>case\<close> of the switch, in order.\<close>

definition setBorder_table :: "CellType \<Rightarrow> (int \<times> int) list" where
  "setBorder_table t =
     (if t = 0 then []
      else if t = 1 then [(0, 1)]
      else if t = 2 then [(1, 1)]
      else if t = 4 then [(1, 0)]
      else if t = 8 then [(0, 0)]
      else if t = 3 then [(0, 1), (1, 1)]
      else if t = 6 then [(1, 0), (1, 1)]
      else if t = 12 then [(0, 0), (1, 0)]
      else if t = 9 then [(0, 0), (0, 1)]
      else if t = 5 \<or> t = 7 \<or> t = 10 \<or> t = 11 \<or> t = 13 \<or> t = 14
        then [(0, 0), (1, 0), (0, 1), (1, 1)]
      else [])"

definition setBorder :: "CellType \<Rightarrow> int \<Rightarrow> int \<Rightarrow> Builder \<Rightarrow> Builder" where
  "setBorder t i j cb = fold (SET_BORDER i j) (setBorder_table t) cb"

subsection \<open>Ring extraction\<close>

definition addVertex :: "Point2d \<Rightarrow> Vertex \<Rightarrow> Polygon \<Rightarrow> Polygon" where
  "addVertex off v ring =
     ring @ [(real_of_int (fst v) / 2 + fst off, real_of_int (snd v) / 2 + snd off)]"

text \<open>
  The \<open>for\<close> loop of \<open>extract\<close>. The walk only reads the store, so a walk that
  has made as many steps as there are segments without reaching \<open>end\<close> has come
  back to a segment it has already left and repeats for ever; the fuel is the
  size of the store.
\<close>

fun extract_loop :: "nat \<Rightarrow> bool \<Rightarrow> Point2d \<Rightarrow> Segment list \<Rightarrow> nat \<Rightarrow> nat
                     \<Rightarrow> nat \<Rightarrow> nat option \<Rightarrow> Polygon \<Rightarrow> error + Polygon" where
  "extract_loop fuel join off segs head e p None ring = Inl NullDereference"
| "extract_loop 0 join off segs head e p (Some s) ring =
     (if s = e then Inr ring else Inl NonTermination)"
| "extract_loop (Suc fuel) join off segs head e p (Some s) ring =
     (if s = e then Inr ring
      else if ringLeader (segs ! s) \<noteq> Some head then Inl RuntimeError
      else if nxt (segs ! s) = None then Inl RuntimeError
      else extract_loop fuel join off segs head e s (nxt (segs ! s))
             (if \<not> join \<or> direction (segs ! s) \<noteq> direction (segs ! p)
              then addVertex off (start (segs ! s)) ring else ring))"

definition extract_ring :: "FindContour \<Rightarrow> nat \<Rightarrow> Builder \<Rightarrow> error + Builder" where
  "extract_ring cf head cb =
     (let segs = segments cb;
          ring = addVertex (offset cb) (start (segs ! head)) []
      in case prev (segs ! head) of
           None \<Rightarrow> Inl NullDereference
         | Some hp \<Rightarrow>
             (let e = (if type (segs ! head) \<noteq> type (segs ! hp) then head else hp)
              in bind_e (extract_loop (length segs) (joinStraightSegments cf) (offset cb)
                           segs head e head (nxt (segs ! head)) ring)
                   (\<lambda>ring'. Inr (cb\<lparr>contour := (contour cb)\<lparr>rings := rings (contour cb) @ [ring']\<rparr>\<rparr>))))"

subsection \<open>addSegment\<close>

text \<open>
  \<open>distributeRingLeaderPrev\<close> / \<open>distributeRingLeaderNext\<close>: the leader read from
  the given segment is written to every segment reached over \<open>prev\<close>
  (respectively \<open>next\<close>) until a null link. The links are not changed by the
  walk, so the fuel is again the size of the store.
\<close>

fun walk_prev :: "nat \<Rightarrow> nat option \<Rightarrow> nat option \<Rightarrow> Segment list \<Rightarrow> error + Segment list" where
  "walk_prev fuel None rl segs = Inr segs"
| "walk_prev 0 (Some k) rl segs = Inl NonTermination"
| "walk_prev (Suc fuel) (Some k) rl segs =
     walk_prev fuel (prev (segs ! k)) rl (segs[k := (segs ! k)\<lparr>ringLeader := rl\<rparr>])"

fun walk_next :: "nat \<Rightarrow> nat option \<Rightarrow> nat option \<Rightarrow> Segment list \<Rightarrow> error + Segment list" where
  "walk_next fuel None rl segs = Inr segs"
| "walk_next 0 (Some k) rl segs = Inl NonTermination"
| "walk_next (Suc fuel) (Some k) rl segs =
     walk_next fuel (nxt (segs ! k)) rl (segs[k := (segs ! k)\<lparr>ringLeader := rl\<rparr>])"

definition distributeRingLeaderPrev :: "nat \<Rightarrow> Segment list \<Rightarrow> error + Segment list" where
  "distributeRingLeaderPrev s segs =
     walk_prev (length segs) (prev (segs ! s)) (ringLeader (segs ! s)) segs"

definition distributeRingLeaderNext :: "nat \<Rightarrow> Segment list \<Rightarrow> error + Segment list" where
  "distributeRingLeaderNext s segs =
     walk_next (length segs) (nxt (segs ! s)) (ringLeader (segs ! s)) segs"

definition set_next :: "nat option \<Rightarrow> nat \<Rightarrow> Segment list \<Rightarrow> Segment list" where
  "set_next p s segs = (case p of None \<Rightarrow> segs | Some k \<Rightarrow> segs[k := (segs ! k)\<lparr>nxt := Some s\<rparr>])"

definition set_prev :: "nat option \<Rightarrow> nat \<Rightarrow> Segment list \<Rightarrow> Segment list" where
  "set_prev n s segs = (case n of None \<Rightarrow> segs | Some k \<Rightarrow> segs[k := (segs ! k)\<lparr>prev := Some s\<rparr>])"

definition set_leader :: "nat option \<Rightarrow> nat option \<Rightarrow> Segment list \<Rightarrow> Segment list" where
  "set_leader p rl segs =
     (case p of None \<Rightarrow> segs | Some k \<Rightarrow> segs[k := (segs ! k)\<lparr>ringLeader := rl\<rparr>])"

definition leader_of :: "nat option \<Rightarrow> Segment list \<Rightarrow> nat option" where
  "leader_of p segs = (case p of None \<Rightarrow> None | Some k \<Rightarrow> ringLeader (segs ! k))"

definition addSegment :: "FindContour \<Rightarrow> CellType \<Rightarrow> Direction \<Rightarrow> int \<Rightarrow> int
                          \<Rightarrow> Vertex \<Rightarrow> Vertex \<Rightarrow> Builder \<Rightarrow> error + Builder" where
  "addSegment cf t dir i j st en cb0 =
     (let cb = setBorder t i j cb0;
          pv = findByEnd (segments cb) st;
          nx = findByStart (segments cb) en;
          (s, segs1) = insert_segment
             \<lparr>type = t, direction = dir, start = st, endp = en,
              prev = pv, nxt = nx, ringLeader = None\<rparr> (segments cb)
      in if pv = None \<and> nx = None then Inr (cb\<lparr>segments := segs1\<rparr>)
         else
           (let segs2 = set_next pv s segs1;
                pRingLeader = leader_of pv segs2;
                segs3 = set_prev nx s segs2;
                nRingLeader = leader_of nx segs3
            in if pRingLeader = None \<and> nRingLeader = None then
                 Inr (cb\<lparr>segments :=
                        set_leader pv (Some s)
                          (set_leader nx (Some s) (set_leader (Some s) (Some s) segs3))\<rparr>)
               else if pRingLeader = None then
                 bind_e (distributeRingLeaderPrev (the nx) segs3)
                   (\<lambda>segs4. Inr (cb\<lparr>segments := segs4\<rparr>))
               else if nRingLeader = None then
                 bind_e (distributeRingLeaderNext (the pv) segs3)
                   (\<lambda>segs4. Inr (cb\<lparr>segments := segs4\<rparr>))
               else if pRingLeader \<noteq> nRingLeader then
                 bind_e (distributeRingLeaderNext (the pv) segs3)
                   (\<lambda>segs4. Inr (cb\<lparr>segments := segs4\<rparr>))
               else
                 extract_ring cf (the pRingLeader)
                   (cb\<lparr>segments := set_leader (Some s) pRingLeader segs3\<rparr>)))"

subsection \<open>Segment tables\<close>

text \<open>
  One \<open>ADD_SEGMENT(D, X1, Y1, X2, Y2)\<close> invocation: direction and the two
  lattice offsets from \<open>(x, y) = (i * 2, j * 2)\<close>.
\<close>

type_synonym SegSpec = "Direction \<times> int \<times> int \<times> int \<times> int"

text \<open>An \<open>addSegment\<close> call: type, direction, i, j, start, end.\<close>

type_synonym Call = "CellType \<times> Direction \<times> int \<times> int \<times> Vertex \<times> Vertex"

definition ADD_SEGMENT :: "CellType \<Rightarrow> int \<Rightarrow> int \<Rightarrow> SegSpec \<Rightarrow> Call" where
  "ADD_SEGMENT t i j sp =
     (case sp of (D, X1, Y1, X2, Y2) \<Rightarrow>
        (t, D, i, j, (i * 2 + X1, j * 2 + Y1), (i * 2 + X2, j * 2 + Y2)))"

definition run_call :: "FindContour \<Rightarrow> Call \<Rightarrow> Builder \<Rightarrow> error + Builder" where
  "run_call cf c cb = (case c of (t, D, i, j, st, en) \<Rightarrow> addSegment cf t D i j st en cb)"

text \<open>The switch of \<open>addAmbiguous\<close> on the code returned by the oracle.\<close>

definition addAmbiguous_table :: "CellType \<Rightarrow> CellType \<Rightarrow> SegSpec list" where
  "addAmbiguous_table t otype =
     (if t = otype then
        (if t = 5 then [(lu, 0, 1, 1, 0), (rd, 2, 1, 1, 2)]
         else if t = 10 then [(ld, 1, 0, 2, 1), (ru, 1, 2, 0, 1)]
         else [])
      else
        (if t = 5 then [(ld, 1, 0, 0, 1), (ru, 1, 2, 2, 1)]
         else if t = 10 then [(lu, 2, 1, 1, 0), (rd, 0, 1, 1, 2)]
         else []))"

definition addAmbiguous_calls :: "FindContour \<Rightarrow> CellType \<Rightarrow> int \<Rightarrow> int \<Rightarrow> Call list" where
  "addAmbiguous_calls cf otype i j =
     (let t = ambiguousType cf (i * 2, j * 2) otype
      in map (ADD_SEGMENT t i j) (addAmbiguous_table t otype))"

text \<open>The switch of \<open>add\<close> (inner cells); codes 5 and 10 go to \<open>addAmbiguous\<close>.\<close>

definition add_table :: "CellType \<Rightarrow> SegSpec list" where
  "add_table t =
     (if t = 0 then []
      else if t = 1 then [(rd, 0, 1, 1, 2)]
      else if t = 2 then [(ru, 1, 2, 2, 1)]
      else if t = 3 then [(r, 0, 1, 2, 1)]
      else if t = 4 then [(lu, 2, 1, 1, 0)]
      else if t = 6 then [(u, 1, 2, 1, 0)]
      else if t = 7 then [(ru, 0, 1, 1, 0)]
      else if t = 8 then [(ld, 1, 0, 0, 1)]
      else if t = 9 then [(d, 1, 0, 1, 2)]
      else if t = 11 then [(rd, 1, 0, 2, 1)]
      else if t = 12 then [(l, 2, 1, 0, 1)]
      else if t = 13 then [(ld, 2, 1, 1, 2)]
      else if t = 14 then [(lu, 1, 2, 0, 1)]
      else [])"

definition add_calls :: "FindContour \<Rightarrow> int \<Rightarrow> int \<Rightarrow> CellType \<Rightarrow> Call list" where
  "add_calls cf i j t =
     (if t = 5 \<or> t = 10 then addAmbiguous_calls cf t i j
      else map (ADD_SEGMENT t i j) (add_table t))"

text \<open>
  The switch of \<open>addBorder\<close>. The case \<open>b0010\<close> has no \<open>return\<close>: control falls
  through into the case \<open>b0011\<close>, whose invocation is the third entry.
\<close>

definition addBorder_table :: "CellType \<Rightarrow> SegSpec list" where
  "addBorder_table t =
     (if t = 0 then []
      else if t = 1 then [(r, 0, 1, 1, 1), (d, 1, 1, 1, 2)]
      else if t = 2 then [(u, 1, 2, 1, 1), (r, 1, 1, 2, 1), (r, 0, 1, 2, 1)]
      else if t = 3 then [(r, 0, 1, 2, 1)]
      else if t = 4 then [(l, 2, 1, 1, 1), (u, 1, 1, 1, 0)]
      else if t = 5 then [(u, 0, 1, 0, 0), (r, 0, 0, 1, 0), (d, 2, 1, 2, 2), (l, 2, 2, 1, 2)]
      else if t = 6 then [(u, 1, 2, 1, 0)]
      else if t = 7 then [(u, 0, 1, 0, 0), (r, 0, 0, 1, 0)]
      else if t = 8 then [(d, 1, 0, 1, 1), (l, 1, 1, 0, 1)]
      else if t = 9 then [(d, 1, 0, 1, 2)]
      else if t = 10 then [(r, 1, 0, 2, 0), (d, 2, 0, 2, 1), (l, 1, 2, 0, 2), (u, 0, 2, 0, 1)]
      else if t = 11 then [(r, 1, 0, 2, 0), (d, 2, 0, 2, 1)]
      else if t = 12 then [(l, 2, 1, 0, 1)]
      else if t = 13 then [(d, 2, 1, 2, 2), (l, 2, 2, 1, 2)]
      else if t = 14 then [(l, 1, 2, 0, 2), (u, 0, 2, 0, 1)]
      else [])"

definition addBorder_calls :: "int \<Rightarrow> int \<Rightarrow> CellType \<Rightarrow> Call list" where
  "addBorder_calls i j t = map (ADD_SEGMENT t i j) (addBorder_table t)"

definition add :: "FindContour \<Rightarrow> int \<Rightarrow> int \<Rightarrow> CellType \<Rightarrow> Builder \<Rightarrow> error + Builder" where
  "add cf i j t cb = for_each (add_calls cf i j t) (run_call cf) cb"

definition addBorder :: "FindContour \<Rightarrow> int \<Rightarrow> int \<Rightarrow> CellType \<Rightarrow> Builder \<Rightarrow> error + Builder" where
  "addBorder cf i j t cb = for_each (addBorder_calls i j t) (run_call cf) cb"

subsection \<open>The sweep: FindContour::operator()\<close>

definition getFlags :: "RasterMask \<Rightarrow> int \<Rightarrow> int \<Rightarrow> CellType" where
  "getFlags raster x y =
     (of_bool (mask_get raster x (y + 1))
      OR push_bit 1 (of_bool (mask_get raster (x + 1) (y + 1)))
      OR push_bit 2 (of_bool (mask_get raster (x + 1) y))
      OR push_bit 3 (of_bool (mask_get raster x y)))"

definition ADD :: "FindContour \<Rightarrow> RasterMask \<Rightarrow> int \<Rightarrow> int \<Rightarrow> Builder \<Rightarrow> error + Builder" where
  "ADD cf raster x y cb = add cf x y (getFlags raster x y) cb"

definition ADD_BORDER :: "FindContour \<Rightarrow> RasterMask \<Rightarrow> int \<Rightarrow> int \<Rightarrow> Builder \<Rightarrow> error + Builder" where
  "ADD_BORDER cf raster x y cb = addBorder cf x y (getFlags raster x y) cb"

definition inner_row :: "FindContour \<Rightarrow> RasterMask \<Rightarrow> int \<Rightarrow> int \<Rightarrow> Builder \<Rightarrow> error + Builder" where
  "inner_row cf raster xend j cb =
     bind_e (ADD_BORDER cf raster (- 1) j cb) (\<lambda>cb1.
     bind_e (for_each [0 ..  xend - 1] (\<lambda>i. ADD cf raster i j) cb1) (\<lambda>cb2.
     ADD_BORDER cf raster xend j cb2))"

text \<open>The builder as it is when \<open>operator()\<close> returns \<open>cb.contour\<close>.\<close>

definition sweep :: "FindContour \<Rightarrow> RasterMask \<Rightarrow> error + Builder" where
  "sweep cf raster =
     (let xend = width raster - 1;
          yend = height raster - 1;
          cb = new_Builder cf (width raster, height raster)
      in bind_e (for_each [- 1 .. xend] (\<lambda>i. ADD_BORDER cf raster i (- 1)) cb) (\<lambda>cb1.
         bind_e (for_each [0 .. yend - 1] (inner_row cf raster xend) cb1) (\<lambda>cb2.
         for_each [- 1 .. xend] (\<lambda>i. ADD_BORDER cf raster i yend) cb2)))"

definition find_contour :: "FindContour \<Rightarrow> RasterMask \<Rightarrow> error + Contour" where
  "find_contour cf raster = bind_e (sweep cf raster) (\<lambda>cb. Inr (contour cb))"

section \<open>Simplification (imgproc/contours.cpp, second half)\<close>

text \<open>
  Coordinates and areas are C++ doubles, modelled by exact reals; the value
  \<open>InvalidArea\<close> (plus infinity) is a constructor of its own.
\<close>

definition all_points :: "Contour list \<Rightarrow> Point2d list" where
  "all_points contours = concat (concat (map rings contours))"

text \<open>\<open>++cardinality[p]\<close> on a \<open>std::map\<close>: a missing key starts at 0.\<close>

definition bump :: "Point2d \<Rightarrow> (Point2d \<rightharpoonup> int) \<Rightarrow> (Point2d \<rightharpoonup> int)" where
  "bump p m = m(p \<mapsto> (case m p of None \<Rightarrow> 0 | Some c \<Rightarrow> c) + 1)"

definition cardinality :: "Contour list \<Rightarrow> (Point2d \<rightharpoonup> int)" where
  "cardinality contours = fold bump (all_points contours) Map.empty"

text \<open>The keys of the map are the points met; those counted more than twice are kept.\<close>

definition findLockedPoints :: "Contour list \<Rightarrow> Point2d set" where
  "findLockedPoints contours =
     set (filter (\<lambda>p. case cardinality contours p of None \<Rightarrow> False | Some c \<Rightarrow> c > 2)
            (all_points contours))"

definition area :: "Point2d \<Rightarrow> Point2d \<Rightarrow> Point2d \<Rightarrow> real" where
  "area a b c = \<bar>((fst b - fst a) * (snd c - snd a)) - ((fst c - fst a) * (snd b - snd a))\<bar>"

datatype cost = Finite real | InvalidArea

fun cost_less :: "cost \<Rightarrow> cost \<Rightarrow> bool" where
  "cost_less (Finite a) (Finite b) = (a < b)"
| "cost_less (Finite a) InvalidArea = True"
| "cost_less InvalidArea c = False"

fun isfinite :: "cost \<Rightarrow> bool" where
  "isfinite (Finite a) = True"
| "isfinite InvalidArea = False"

text \<open>
  An element of the linked list \<open>points\<close>: the three components of the
  \<open>math::Point3\<close> (x, y, cost) and the identity of its list node, which is what
  a \<open>LinkedPoints::iterator\<close> in the heap refers to.
\<close>

record LinkedPoint =
  node :: nat
  c0 :: real
  c1 :: real
  c2 :: cost

definition xy :: "LinkedPoint \<Rightarrow> Point2d" where
  "xy p = (c0 p, c1 p)"

text \<open>The lambda \<open>add\<close> of \<open>simplifyRing\<close>, on the pair (points, heap).\<close>

definition add_point :: "Point2d set \<Rightarrow> nat \<Rightarrow> Point2d \<Rightarrow> Point2d \<Rightarrow> Point2d
    \<Rightarrow> LinkedPoint list \<times> nat list \<Rightarrow> LinkedPoint list \<times> nat list" where
  "add_point lockedPoints k pv p nx st =
     (if p \<notin> lockedPoints
      then (fst st @ [\<lparr>node = k, c0 = fst p, c1 = snd p, c2 = Finite (area pv p nx)\<rparr>],
            snd st @ [k])
      else (fst st @ [\<lparr>node = k, c0 = fst p, c1 = snd p, c2 = InvalidArea\<rparr>], snd st))"

definition build_points :: "Point2d set \<Rightarrow> Polygon \<Rightarrow> LinkedPoint list \<times> nat list" where
  "build_points lockedPoints ring =
     (let n = length ring;
          st1 = add_point lockedPoints 0 (last ring) (hd ring) (ring ! 1) ([], []);
          st2 = fold (\<lambda>i. add_point lockedPoints i (ring ! (i - 1)) (ring ! i) (ring ! (i + 1)))
                  [1 ..< n - 1] st1
      in add_point lockedPoints (n - 1) (ring ! (n - 2)) (last ring) (hd ring) st2)"

text \<open>The lambda \<open>compare\<close>, on the points the two iterators refer to.\<close>

definition compare :: "LinkedPoint \<Rightarrow> LinkedPoint \<Rightarrow> bool" where
  "compare p1 p2 =
     (if cost_less (c2 p1) (c2 p2) then False
      else if cost_less (c2 p2) (c2 p1) then True
      else if c0 p1 < c0 p2 then False
      else if c0 p1 > c0 p2 then True
      else c1 p1 < c1 p2)"

definition deref :: "LinkedPoint list \<Rightarrow> nat \<Rightarrow> LinkedPoint option" where
  "deref points it = List.find (\<lambda>p. node p = it) points"

definition compare_it :: "LinkedPoint list \<Rightarrow> nat \<Rightarrow> nat \<Rightarrow> bool" where
  "compare_it points a b =
     (case (deref points a, deref points b) of
        (Some p1, Some p2) \<Rightarrow> compare p1 p2
      | _ \<Rightarrow> False)"

text \<open>
  \<open>std::make_heap(heapBegin, heapEnd, compare)\<close> followed by reading
  \<open>*heapBegin\<close>: the C++ library puts at the front an element that is not below
  any other in the order \<open>compare\<close>. Elements that are equal in that order have
  the same cost and coordinates; of those the model takes the first.
\<close>

fun heap_top :: "LinkedPoint list \<Rightarrow> nat \<Rightarrow> nat list \<Rightarrow> nat" where
  "heap_top points best [] = best"
| "heap_top points best (h # hs) =
     heap_top points (if compare_it points best h then h else best) hs"

definition getPrev :: "LinkedPoint list \<Rightarrow> nat \<Rightarrow> nat" where
  "getPrev points k = (if k = 0 then length points - 1 else k - 1)"

definition getNext :: "LinkedPoint list \<Rightarrow> nat \<Rightarrow> nat" where
  "getNext points k = (if k + 1 = length points then 0 else k + 1)"

definition recompute :: "nat \<Rightarrow> LinkedPoint list \<Rightarrow> LinkedPoint list" where
  "recompute k points =
     (if isfinite (c2 (points ! k))
      then points[k := (points ! k)\<lparr>c2 := Finite (area (xy (points ! getPrev points k))
                                                    (xy (points ! k))
                                                    (xy (points ! getNext points k)))\<rparr>]
      else points)"

text \<open>
  The body of the \<open>while\<close> loop after the stop test: erase the point at
  position \<open>k\<close>, step to its successor (cyclically) and recompute the two
  neighbours. When the list has become empty the iterator is past the end
  and the next line dereferences it.
\<close>

definition remove_point :: "nat \<Rightarrow> LinkedPoint list \<Rightarrow> error + LinkedPoint list" where
  "remove_point k points =
     (let points1 = take k points @ drop (Suc k) points
      in if points1 = [] then Inl NullDereference
         else
           (let point = (if k = length points1 then 0 else k);
                pv = getPrev points1 point
            in Inr (recompute point (recompute pv points1))))"

text \<open>
  The \<open>while (heapBegin != heapEnd)\<close> loop; the first argument is the range
  \<open>[heapBegin, heapEnd)\<close>. An iterator of the heap always refers to a live
  node, so the \<open>None\<close> branch stands for a dangling iterator.
\<close>

function simplify_loop :: "real \<Rightarrow> nat list \<Rightarrow> LinkedPoint list \<Rightarrow> error + LinkedPoint list" where
  "simplify_loop stopCondition [] points = Inr points"
| "simplify_loop stopCondition (h # hs) points =
     (let point = heap_top points h hs
      in case find_idx (\<lambda>p. node p = point) points of
           None \<Rightarrow> Inl NullDereference
         | Some k \<Rightarrow>
             if cost_less (Finite stopCondition) (c2 (points ! k)) then Inr points
             else bind_e (remove_point k points)
                    (simplify_loop stopCondition (remove1 point (h # hs))))"
  by pat_completeness auto

termination
proof (relation "measure (\<lambda>(s, heap, pts). length heap)")
  show "wf (measure (\<lambda>(s, heap, pts). length heap))" by simp
next
  fix stopCondition :: real and h :: nat and hs :: "nat list"
    and points :: "LinkedPoint list" and x :: nat and x2 :: nat and y :: "LinkedPoint list"
  assume "x = heap_top points h hs"
  have "\<And>b. heap_top points b hs \<in> insert b (set hs)"
    by (induction hs) auto
  then have "heap_top points h hs \<in> set (h # hs)" by simp
  then have "length (remove1 (heap_top points h hs) (h # hs)) < length (h # hs)"
    by (simp only: length_remove1 if_True) simp
  then show "((stopCondition, remove1 x (h # hs), y), stopCondition, h # hs, points)
              \<in> measure (\<lambda>(s, heap, pts). length heap)"
    using \<open>x = heap_top points h hs\<close> by simp
qed

definition simplifyRing :: "Polygon \<Rightarrow> Point2d set \<Rightarrow> real \<Rightarrow> error + Polygon" where
  "simplifyRing ring lockedPoints stopCondition0 =
     (let stopCondition = stopCondition0 * 2
      in if length ring \<le> 4 then Inr ring
         else
           (let st = build_points lockedPoints ring
            in bind_e (simplify_loop stopCondition (snd st) (fst st))
                 (\<lambda>points. Inr (map xy points))))"

fun map_e :: "('a \<Rightarrow> error + 'b) \<Rightarrow> 'a list \<Rightarrow> error + 'b list" where
  "map_e f [] = Inr []"
| "map_e f (x # xs) = bind_e (f x) (\<lambda>y. bind_e (map_e f xs) (\<lambda>ys. Inr (y # ys)))"

text \<open>
  Modelled from the spec: \<open>Contour::operator bool\<close> (declared in contours.hpp,
  not among the sources); a contour is empty iff it has no rings.
\<close>

definition contour_nonempty :: "Contour \<Rightarrow> bool" where
  "contour_nonempty c = (rings c \<noteq> [])"

definition simplify :: "Contour list \<Rightarrow> error + Contour list" where
  "simplify contours =
     (let lockedPoints = findLockedPoints contours
      in map_e (\<lambda>c. if \<not> contour_nonempty c then Inr c
                     else bind_e (map_e (\<lambda>ring. simplifyRing ring lockedPoints 10) (rings c))
                            (\<lambda>rs. Inr (c\<lparr>rings := rs\<rparr>)))
           contours)"

section \<open>Definitions used in the statements\<close>

text \<open>
  The corner pixels that \<open>setBorder\<close> marks, as offsets from \<open>(i, j)\<close>. Bit 0 of
  a code belongs to the corner \<open>(0, 1)\<close>, bit 1 to \<open>(1, 1)\<close>, bit 2 to \<open>(1, 0)\<close>
  and bit 3 to \<open>(0, 0)\<close> (see \<open>getFlags\<close>).
\<close>

definition marked_corners :: "CellType \<Rightarrow> (int \<times> int) set" where
  "marked_corners t =
     (if t \<in> {5, 10, 7, 11, 13, 14} then {(0, 0), (1, 0), (0, 1), (1, 1)}
      else if t \<in> {1, 2, 4, 8, 3, 6, 12, 9} then
        {XY. (XY = (0, 1) \<and> bit t 0) \<or> (XY = (1, 1) \<and> bit t 1)
           \<or> (XY = (1, 0) \<and> bit t 2) \<or> (XY = (0, 0) \<and> bit t 3)}
      else {})"

text \<open>
  The cells in the order in which \<open>operator()\<close> visits them; the flag tells
  whether the cell is handed to \<open>addBorder\<close> (\<open>True\<close>) or to \<open>add\<close>.
\<close>

definition row_cells :: "int \<Rightarrow> int \<Rightarrow> (bool \<times> int \<times> int) list" where
  "row_cells xend j =
     (True, - 1, j) # map (\<lambda>i. (False, i, j)) [0 .. xend - 1] @ [(True, xend, j)]"

definition sweep_cells :: "RasterMask \<Rightarrow> (bool \<times> int \<times> int) list" where
  "sweep_cells raster =
     (let xend = width raster - 1; yend = height raster - 1
      in map (\<lambda>i. (True, i, - 1)) [- 1 .. xend]
         @ concat (map (row_cells xend) [0 .. yend - 1])
         @ map (\<lambda>i. (True, i, yend)) [- 1 .. xend])"

definition cell_calls :: "FindContour \<Rightarrow> RasterMask \<Rightarrow> bool \<times> int \<times> int \<Rightarrow> Call list" where
  "cell_calls cf raster c =
     (case c of (b, i, j) \<Rightarrow>
        if b then addBorder_calls i j (getFlags raster i j)
        else add_calls cf i j (getFlags raster i j))"

text \<open>All \<open>addSegment\<close> calls of a sweep, in order.\<close>

definition sweep_calls :: "FindContour \<Rightarrow> RasterMask \<Rightarrow> Call list" where
  "sweep_calls cf raster = concat (map (cell_calls cf raster) (sweep_cells raster))"

text \<open>The pixels that one \<open>addSegment\<close> call marks through \<open>setBorder\<close>.\<close>

definition call_marks :: "RasterMask \<Rightarrow> Call \<Rightarrow> (int \<times> int) set" where
  "call_marks m c =
     (case c of (t, D, i, j, st, en) \<Rightarrow>
        {(i + X, j + Y) | X Y. (X, Y) \<in> marked_corners t \<and> in_range m (i + X) (j + Y)})"

text \<open>
  The contract of the oracle stated in the specification: a saddle code is
  answered by itself or by its complement.
\<close>

definition oracle_ok :: "FindContour \<Rightarrow> bool" where
  "oracle_ok cf = (\<forall>v. ambiguousType cf v 5 \<in> {5, 10} \<and> ambiguousType cf v 10 \<in> {5, 10})"

section \<open>Properties\<close>

subsection \<open>Basic facts\<close>

lemma getFlags_sum:
  "getFlags raster x y =
     of_bool (mask_get raster x (y + 1)) + 2 * of_bool (mask_get raster (x + 1) (y + 1))
      + 4 * of_bool (mask_get raster (x + 1) y) + 8 * of_bool (mask_get raster x y)"
  by (simp add: getFlags_def)

lemma setBorder_table_marked: "set (setBorder_table t) = marked_corners t"
  unfolding setBorder_table_def marked_corners_def
  by (auto simp: bit_iff_odd)

lemma fold_SET_BORDER:
  "bits (border (contour (fold (SET_BORDER i j) xs cb))) =
     bits (border (contour cb)) \<union>
       {(i + X, j + Y) | X Y. (X, Y) \<in> set xs \<and> in_range (border (contour cb)) (i + X) (j + Y)}
   \<and> width (border (contour (fold (SET_BORDER i j) xs cb))) = width (border (contour cb))
   \<and> height (border (contour (fold (SET_BORDER i j) xs cb))) = height (border (contour cb))"
proof (induction xs arbitrary: cb)
  case Nil
  then show ?case by simp
next
  case (Cons a xs)
  show ?case
    apply (simp add: Cons)
    apply (auto simp: SET_BORDER_def mask_set_def in_range_def)
    done
qed

subsection \<open>The sweep as one list of calls\<close>

lemma for_each_append:
  "for_each (xs @ ys) body s = bind_e (for_each xs body s) (for_each ys body)"
proof (induction xs arbitrary: s)
  case Nil
  then show ?case by simp
next
  case (Cons x xs)
  then show ?case by (cases "body x s") simp_all
qed

lemma for_each_concat:
  "for_each xs (\<lambda>x. for_each (f x) body) s = for_each (concat (map f xs)) body s"
proof (induction xs arbitrary: s)
  case Nil
  then show ?case by simp
next
  case (Cons x xs)
  show ?case
    by (cases "for_each (f x) body s") (simp_all add: for_each_append Cons)
qed

lemma for_each_map: "for_each (map g xs) body s = for_each xs (\<lambda>x. body (g x)) s"
proof (induction xs arbitrary: s)
  case Nil
  then show ?case by simp
next
  case (Cons x xs)
  then show ?case by (cases "body (g x) s") simp_all
qed

lemma bind_e_assoc: "bind_e (bind_e m f) g = bind_e m (\<lambda>x. bind_e (f x) g)"
  by (cases m) simp_all

lemma for_each_append_fun:
  "for_each (xs @ ys) body = (\<lambda>s. bind_e (for_each xs body s) (for_each ys body))"
  by (rule ext) (rule for_each_append)

lemma for_each_map_fun: "for_each (map g xs) body = for_each xs (\<lambda>x. body (g x))"
  by (rule ext) (rule for_each_map)

lemma ADD_BORDER_calls:
  "ADD_BORDER cf raster i j = for_each (cell_calls cf raster (True, i, j)) (run_call cf)"
  by (rule ext) (simp add: ADD_BORDER_def addBorder_def cell_calls_def)

lemma ADD_calls:
  "ADD cf raster i j = for_each (cell_calls cf raster (False, i, j)) (run_call cf)"
  by (rule ext) (simp add: ADD_def add_def cell_calls_def)

lemma for_each_single: "for_each [x] body = body x"
proof (rule ext)
  fix s show "for_each [x] body s = body x s" by (cases "body x s") simp_all
qed

lemma inner_row_flat:
  "inner_row cf raster xend j =
     for_each (row_cells xend j) (\<lambda>c. for_each (cell_calls cf raster c) (run_call cf))"
  by (rule ext)
     (simp add: inner_row_def row_cells_def for_each_append_fun for_each_map_fun
        ADD_BORDER_calls ADD_calls for_each_single)

lemma sweep_flat:
  "sweep cf raster =
     for_each (sweep_calls cf raster) (run_call cf) (new_Builder cf (width raster, height raster))"
proof -
  have "sweep cf raster =
     for_each (sweep_cells raster) (\<lambda>c. for_each (cell_calls cf raster c) (run_call cf))
       (new_Builder cf (width raster, height raster))"
    unfolding sweep_def sweep_cells_def Let_def for_each_append for_each_append_fun
      for_each_map_fun for_each_concat[symmetric, where f = "row_cells (width raster - 1)"]
      inner_row_flat ADD_BORDER_calls
    by simp
  then show ?thesis by (simp add: sweep_calls_def for_each_concat)
qed

subsection \<open>Concrete rasters\<close>

text \<open>
  C1. For the 1x1 raster \<open>[[1]]\<close> with pixel origin at the centre and straight
  segments joined, \<open>find_contour\<close> returns normally, with exactly one ring whose
  vertices are (-0.5,-0.5), (0.5,-0.5), (0.5,0.5), (-0.5,0.5) in this order and
  a border mask in which exactly the pixel (0,0) is set. No inner cell exists,
  so the oracle is never asked and may be any function.
\<close>

theorem find_contour_single_pixel:
  "find_contour \<lparr>pixelOrigin = center, joinStraightSegments = True, ambiguousType = f\<rparr>
       \<lparr>width = 1, height = 1, bits = {(0, 0)}\<rparr> =
     Inr \<lparr>rings = [[(- 0.5, - 0.5), (0.5, - 0.5), (0.5, 0.5), (- 0.5, 0.5)]],
          border = \<lparr>width = 1, height = 1, bits = {(0, 0)}\<rparr>\<rparr>"
  by (simp add: find_contour_def sweep_def ADD_BORDER_def addBorder_def addBorder_calls_def
      addBorder_table_def getFlags_sum mask_get_def in_range_def new_Builder_def empty_mask_def
      upto.simps ADD_SEGMENT_def run_call_def addSegment_def setBorder_def setBorder_table_def
      SET_BORDER_def mask_set_def findByStart_def findByEnd_def insert_segment_def set_next_def
      set_prev_def set_leader_def leader_of_def distributeRingLeaderPrev_def
      distributeRingLeaderNext_def extract_ring_def addVertex_def Let_def)

text \<open>
  C9. For a raster of dimensions 0x0 (whatever its bit storage holds),
  \<open>find_contour\<close> returns normally with no ring and with no pixel set in the
  border mask.
\<close>

theorem find_contour_zero_raster:
  "width raster = 0 \<Longrightarrow> height raster = 0 \<Longrightarrow>
     find_contour cf raster = Inr \<lparr>rings = [], border = \<lparr>width = 0, height = 0, bits = {}\<rparr>\<rparr>"
  by (simp add: find_contour_def sweep_def ADD_BORDER_def addBorder_def addBorder_calls_def
      addBorder_table_def getFlags_sum mask_get_def in_range_def new_Builder_def empty_mask_def
      upto.simps)

theorem find_contour_zero_raster_witness:
  "width \<lparr>width = 0, height = 0, bits = {}\<rparr> = 0
   \<and> height \<lparr>width = 0, height = 0, bits = {}\<rparr> = 0
   \<and> find_contour \<lparr>pixelOrigin = corner, joinStraightSegments = False, ambiguousType = (\<lambda>v t. t)\<rparr>
        \<lparr>width = 0, height = 0, bits = {}\<rparr>
       = Inr \<lparr>rings = [], border = \<lparr>width = 0, height = 0, bits = {}\<rparr>\<rparr>"
  using find_contour_zero_raster
          [of "\<lparr>width = 0, height = 0, bits = {}\<rparr>"
              "\<lparr>pixelOrigin = corner, joinStraightSegments = False, ambiguousType = (\<lambda>v t. t)\<rparr>"]
  by simp

subsection \<open>The border-cell table\<close>

text \<open>
  C2. A border cell of code 0b0010 should emit exactly the two segments u from
  (1,2) to (1,1) and r from (1,1) to (2,1). In the source the case has no
  \<open>return\<close>, so a third \<open>addSegment\<close> call, r from (0,1) to (2,1) of the case
  0b0011, is issued as well. Shown at the cell (-1,-1) of the raster \<open>[[1]]\<close>,
  whose code is 0b0010 (lattice origin (-2,-2)).
\<close>

theorem addBorder_b0010_falls_through:
  "getFlags \<lparr>width = 1, height = 1, bits = {(0, 0)}\<rparr> (- 1) (- 1) = 2
   \<and> addBorder_calls (- 1) (- 1) 2 =
       [(2, u, - 1, - 1, (- 1, 0), (- 1, - 1)),
        (2, r, - 1, - 1, (- 1, - 1), (0, - 1)),
        (2, r, - 1, - 1, (- 2, - 1), (0, - 1))]"
  by (simp add: getFlags_sum mask_get_def in_range_def addBorder_calls_def addBorder_table_def
      ADD_SEGMENT_def)

subsection \<open>Border-pixel bookkeeping\<close>

text \<open>
  C3 (as amended). \<open>setBorder\<close> adds to the border mask exactly the following
  pixels, as far as they lie inside the raster: for a code with one set bit or
  with two adjacent set bits, the corners whose bit is set; for the two saddle
  codes 0b0101, 0b1010 and for the four three-bit codes 0b0111, 0b1011, 0b1101,
  0b1110, all four corners; for 0b0000 and 0b1111, none.
\<close>

theorem setBorder_marks:
  "bits (border (contour (setBorder t i j cb))) =
     bits (border (contour cb)) \<union>
       {(i + X, j + Y) | X Y.
          (X, Y) \<in> marked_corners t \<and> in_range (border (contour cb)) (i + X) (j + Y)}"
  by (simp add: setBorder_def fold_SET_BORDER setBorder_table_marked)

text \<open>
  C3 as stated fails: for the three-bit code 0b0111 at cell (0,0) of a 2x2
  raster the pixel (0,0) is marked although bit 3, the bit of that corner, is
  not set in the code.
\<close>

theorem setBorder_three_bit_counterexample:
  "(0, 0) \<in> bits (border (contour (setBorder 7 0 0
       (new_Builder \<lparr>pixelOrigin = center, joinStraightSegments = True,
                      ambiguousType = (\<lambda>v t. t)\<rparr> (2, 2)))))
   \<and> \<not> bit (7 :: nat) 3"
  by (simp add: setBorder_def setBorder_table_def SET_BORDER_def mask_set_def in_range_def
      new_Builder_def empty_mask_def)

subsection \<open>Locked points\<close>

text \<open>
  C5. A vertex should be locked iff it occurs in more than two distinct rings.
  \<open>findLockedPoints\<close> counts occurrences instead: the point (0,0), which occurs
  three times in the only ring of the only contour, is locked.
\<close>

theorem findLockedPoints_counts_occurrences:
  "findLockedPoints
     [\<lparr>rings = [[(0, 0), (1, 0), (0, 0), (0, 1), (0, 0), (- 1, 0)]], border = empty_mask 0 0\<rparr>]
   = {(0, 0)}"
  by code_simp

subsection \<open>Order of removal\<close>

text \<open>
  C6. Among the removable points of minimum cost and equal x the one with the
  smaller y should be removed first. In the ring below the points (0,0) and
  (0,4) tie on cost 16 (below the doubled threshold 20) and on x; the loop
  removes (0,4), the one with the larger y, after which (0,0) costs 48 and
  stays.
\<close>

theorem simplifyRing_tie_removes_larger_y:
  "map c2 (fst (build_points {} [(4, - 4), (0, 0), (0, 4), (4, 8), (100, 2)]))
     = [Finite 408, Finite 16, Finite 16, Finite 408, Finite 1152]
   \<and> simplifyRing [(4, - 4), (0, 0), (0, 4), (4, 8), (100, 2)] {} 10
     = Inr [(4, - 4), (0, 0), (4, 8), (100, 2)]"
  by code_simp

subsection \<open>The simplifier only removes vertices\<close>

lemma xy_add_point: "map xy (fst (add_point lk k pv p nx st)) = map xy (fst st) @ [p]"
  by (simp add: add_point_def xy_def)

lemma xy_fold_add_point:
  "map xy (fst (fold (\<lambda>i. add_point lk i (f i) (g i) (h i)) is st)) = map xy (fst st) @ map g is"
  by (induction "is" arbitrary: st) (simp_all add: xy_add_point)

lemma list_hd_mid_last:
  assumes "2 \<le> length xs"
  shows "hd xs # map (\<lambda>i. xs ! i) [1 ..< length xs - 1] @ [last xs] = xs"
proof (rule nth_equalityI)
  show len: "length (hd xs # map (\<lambda>i. xs ! i) [1 ..< length xs - 1] @ [last xs]) = length xs"
    using assms by simp
  fix i assume "i < length (hd xs # map (\<lambda>i. xs ! i) [1 ..< length xs - 1] @ [last xs])"
  then have i: "i < length xs" using len by simp
  consider "i = 0" | "0 < i" "i < length xs - 1" | "i = length xs - 1" "0 < i"
    using i by linarith
  then show "(hd xs # map (\<lambda>i. xs ! i) [1 ..< length xs - 1] @ [last xs]) ! i = xs ! i"
  proof cases
    case 1
    then show ?thesis using assms by (cases xs) auto
  next
    case 2
    then show ?thesis by (cases i) (auto simp: nth_append)
  next
    case 3
    then show ?thesis using assms
      by (cases xs rule: rev_cases) (auto simp: nth_append)
  qed
qed

lemma xy_build_points:
  "2 \<le> length ring \<Longrightarrow> map xy (fst (build_points lk ring)) = ring"
  using list_hd_mid_last[of ring]
  by (simp add: build_points_def Let_def xy_add_point xy_fold_add_point)

lemma xy_recompute: "map xy (recompute k pts) = map xy pts"
proof (cases "k < length pts")
  case True
  then show ?thesis
    by (simp add: recompute_def xy_def map_update list_update_same_conv)
next
  case False
  then show ?thesis by (simp add: recompute_def list_update_beyond)
qed

lemma subseq_erase: "subseq (take k xs @ drop (Suc k) xs) xs"
proof (cases "k < length xs")
  case True
  have "subseq (take k xs @ drop (Suc k) xs) (take k xs @ xs ! k # drop (Suc k) xs)"
    by (simp add: subseq_append' list_emb_Cons)
  then show ?thesis using id_take_nth_drop[OF True] by simp
next
  case False
  then show ?thesis by simp
qed

lemma subseq_remove_point:
  assumes "remove_point k pts = Inr pts'"
  shows "subseq (map xy pts') (map xy pts)"
proof -
  have "subseq (take k (map xy pts) @ drop (Suc k) (map xy pts)) (map xy pts)"
    by (rule subseq_erase)
  then have "subseq (map xy (take k pts @ drop (Suc k) pts)) (map xy pts)"
    by (simp add: take_map drop_map)
  with assms show ?thesis
    by (auto simp: remove_point_def Let_def xy_recompute split: if_splits)
qed

lemma subseq_simplify_loop:
  "simplify_loop stop heap pts = Inr pts' \<Longrightarrow> subseq (map xy pts') (map xy pts)"
proof (induction stop heap pts arbitrary: pts' rule: simplify_loop.induct)
  case (1 stop pts)
  then show ?case by simp
next
  case (2 stop h hs pts)
  show ?case
  proof (cases "find_idx (\<lambda>p. node p = heap_top pts h hs) pts")
    case None
    with 2(2) show ?thesis by (simp add: Let_def)
  next
    case (Some k)
    show ?thesis
    proof (cases "cost_less (Finite stop) (c2 (pts ! k))")
      case True
      with 2(2) Some show ?thesis by (simp add: Let_def)
    next
      case False
      show ?thesis
      proof (cases "remove_point k pts")
        case (Inl e)
        with 2(2) Some False show ?thesis by (simp add: Let_def)
      next
        case (Inr pts1)
        with 2(2) Some False have r: "simplify_loop stop (remove1 (heap_top pts h hs) (h # hs)) pts1 = Inr pts'"
          by (simp add: Let_def)
        have "subseq (map xy pts') (map xy pts1)"
          using 2(1)[OF refl Some False r] .
        moreover have "subseq (map xy pts1) (map xy pts)"
          using subseq_remove_point[OF Inr] .
        ultimately show ?thesis by (rule subseq_order.order_trans)
      qed
    qed
  qed
qed

lemma simplifyRing_subseq_aux:
  "simplifyRing ring lk stop = Inr out \<Longrightarrow> subseq out ring"
proof (cases "length ring \<le> 4")
  case True
  assume "simplifyRing ring lk stop = Inr out"
  with True show ?thesis by (simp add: simplifyRing_def)
next
  case False
  assume a: "simplifyRing ring lk stop = Inr out"
  obtain pts where l: "simplify_loop (stop * 2) (snd (build_points lk ring)) (fst (build_points lk ring)) = Inr pts"
    and o: "out = map xy pts"
    using a False by (cases "simplify_loop (stop * 2) (snd (build_points lk ring)) (fst (build_points lk ring))")
      (auto simp: simplifyRing_def Let_def)
  from subseq_simplify_loop[OF l] xy_build_points[of ring lk] False o show ?thesis by simp
qed

lemma map_e_all2: "map_e f xs = Inr ys \<Longrightarrow> list_all2 (\<lambda>x y. f x = Inr y) xs ys"
proof (induction xs arbitrary: ys)
  case Nil
  then show ?case by simp
next
  case (Cons x xs)
  from Cons.prems obtain y ys' where fx: "f x = Inr y" and r: "map_e f xs = Inr ys'"
    and ys: "ys = y # ys'"
    by (cases "f x"; cases "map_e f xs") auto
  from Cons.IH[OF r] fx ys show ?case by simp
qed

lemma simplify_subseq_aux:
  assumes "simplify contours = Inr cs"
  shows "list_all2 (\<lambda>c c'. list_all2 (\<lambda>ring ring'. subseq ring' ring) (rings c) (rings c'))
           contours cs"
proof -
  let ?lk = "findLockedPoints contours"
  let ?f = "\<lambda>c. if \<not> contour_nonempty c then Inr c
                 else bind_e (map_e (\<lambda>ring. simplifyRing ring ?lk 10) (rings c))
                        (\<lambda>rs. Inr (c\<lparr>rings := rs\<rparr>))"
  have one: "list_all2 (\<lambda>ring ring'. subseq ring' ring) (rings c) (rings c')"
    if "?f c = Inr c'" for c c'
  proof (cases "contour_nonempty c")
    case False
    with that have "c' = c" by simp
    then show ?thesis by (simp add: list_all2_same)
  next
    case True
    with that obtain rs where m: "map_e (\<lambda>ring. simplifyRing ring ?lk 10) (rings c) = Inr rs"
      and c': "c' = c\<lparr>rings := rs\<rparr>"
      by (cases "map_e (\<lambda>ring. simplifyRing ring ?lk 10) (rings c)") auto
    from map_e_all2[OF m] have "list_all2 (\<lambda>ring ring'. subseq ring' ring) (rings c) rs"
      by (rule list_all2_mono) (rule simplifyRing_subseq_aux)
    with c' show ?thesis by simp
  qed
  from assms have "map_e ?f contours = Inr cs" by (simp add: simplify_def Let_def)
  from map_e_all2[OF this] show ?thesis
    by (rule list_all2_mono) (rule one)
qed

text \<open>
  C10. Whenever \<open>simplifyRing\<close> returns a ring, that ring is a subsequence of the
  input ring: its vertices are input vertices with unchanged coordinates, in
  the input's order, none added. Hence whenever \<open>simplify\<close> returns, every
  output ring is a subsequence of the input ring at the same position.
\<close>

theorem simplify_only_removes_vertices:
  "(simplifyRing ring lockedPoints stopCondition = Inr out \<longrightarrow> subseq out ring)
   \<and> (simplify contours = Inr cs \<longrightarrow>
        list_all2 (\<lambda>c c'. list_all2 (\<lambda>ring ring'. subseq ring' ring) (rings c) (rings c'))
          contours cs)"
  using simplifyRing_subseq_aux simplify_subseq_aux by blast

theorem simplify_only_removes_vertices_witness:
  "simplifyRing [(0, 0), (0, 1), (0, 2), (0, 3), (9, 3), (9, 0)] {} 10
     = Inr [(0, 0), (0, 3), (9, 3), (9, 0)]
   \<and> subseq [(0, 0), (0, 3), (9, 3), (9, 0)] [(0 :: real, 0 :: real), (0, 1), (0, 2), (0, 3), (9, 3), (9, 0)]
   \<and> simplify [\<lparr>rings = [[(0, 0), (0, 1), (0, 2), (0, 3), (9, 3), (9, 0)]], border = empty_mask 0 0\<rparr>]
     = Inr [\<lparr>rings = [[(0, 0), (0, 3), (9, 3), (9, 0)]], border = empty_mask 0 0\<rparr>]
   \<and> list_all2 (\<lambda>c c'. list_all2 (\<lambda>ring ring'. subseq ring' ring) (rings c) (rings c'))
        [\<lparr>rings = [[(0, 0), (0, 1), (0, 2), (0, 3), (9, 3), (9, 0)]], border = empty_mask 0 0\<rparr>]
        [\<lparr>rings = [[(0, 0), (0, 3), (9, 3), (9, 0)]], border = empty_mask 0 0\<rparr>]"
proof -
  have a: "simplifyRing [(0, 0), (0, 1), (0, 2), (0, 3), (9, 3), (9, 0)] {} 10
     = Inr [(0, 0), (0, 3), (9, 3), (9, 0)]"
    by code_simp
  have b: "simplify [\<lparr>rings = [[(0, 0), (0, 1), (0, 2), (0, 3), (9, 3), (9, 0)]], border = empty_mask 0 0\<rparr>]
     = Inr [\<lparr>rings = [[(0, 0), (0, 3), (9, 3), (9, 0)]], border = empty_mask 0 0\<rparr>]"
    by code_simp
  from a b simplify_only_removes_vertices
         [of "[(0, 0), (0, 1), (0, 2), (0, 3), (9, 3), (9, 0)]" "{}" 10
             "[(0, 0), (0, 3), (9, 3), (9, 0)]"
             "[\<lparr>rings = [[(0, 0), (0, 1), (0, 2), (0, 3), (9, 3), (9, 0)]], border = empty_mask 0 0\<rparr>]"
             "[\<lparr>rings = [[(0, 0), (0, 3), (9, 3), (9, 0)]], border = empty_mask 0 0\<rparr>]"]
  show ?thesis by blast
qed

subsection \<open>The border mask of a sweep\<close>

lemma extract_ring_border:
  "extract_ring cf h cb = Inr cb' \<Longrightarrow> border (contour cb') = border (contour cb)"
  by (auto simp: extract_ring_def Let_def split: option.splits sum.splits if_splits
      elim!: bind_e.elims)

lemma bind_e_Inr: "bind_e m f = Inr y \<longleftrightarrow> (\<exists>x. m = Inr x \<and> f x = Inr y)"
  by (cases m) simp_all

lemma addSegment_border:
  assumes "addSegment cf t dir i j st en cb = Inr cb'"
  shows "border (contour cb') = border (contour (setBorder t i j cb))"
  using assms
  unfolding addSegment_def Let_def
  by (auto simp: bind_e_Inr split: prod.splits if_splits dest!: extract_ring_border)


lemma in_range_dims:
  "width m' = width m \<Longrightarrow> height m' = height m \<Longrightarrow> in_range m' x y = in_range m x y"
  by (simp add: in_range_def)

lemma run_call_border:
  assumes "run_call cf c cb = Inr cb'"
  shows "bits (border (contour cb')) = bits (border (contour cb)) \<union> call_marks (border (contour cb)) c
         \<and> width (border (contour cb')) = width (border (contour cb))
         \<and> height (border (contour cb')) = height (border (contour cb))"
proof -
  obtain t D i j st en where c: "c = (t, D, i, j, st, en)" by (cases c)
  with assms have "addSegment cf t D i j st en cb = Inr cb'" by (simp add: run_call_def)
  from addSegment_border[OF this]
  have eq: "border (contour cb') = border (contour (fold (SET_BORDER i j) (setBorder_table t) cb))"
    by (simp only: setBorder_def)
  have cm: "call_marks (border (contour cb)) c =
      {(i + X, j + Y) | X Y. (X, Y) \<in> set (setBorder_table t)
          \<and> in_range (border (contour cb)) (i + X) (j + Y)}"
    by (simp only: c call_marks_def prod.case setBorder_table_marked)
  show ?thesis
    unfolding eq cm by (rule fold_SET_BORDER)
qed

lemma call_marks_dims:
  "width m' = width m \<Longrightarrow> height m' = height m \<Longrightarrow> call_marks m' x = call_marks m x"
  by (cases x) (simp add: call_marks_def in_range_def)

lemma for_each_calls_border:
  "for_each calls (run_call cf) cb = Inr cb' \<Longrightarrow>
     bits (border (contour cb')) =
       bits (border (contour cb)) \<union> (\<Union>c\<in>set calls. call_marks (border (contour cb)) c)
     \<and> width (border (contour cb')) = width (border (contour cb))
     \<and> height (border (contour cb')) = height (border (contour cb))"
proof (induction calls arbitrary: cb)
  case Nil
  then show ?case by simp
next
  case (Cons c calls)
  from Cons.prems obtain cb1 where 1: "run_call cf c cb = Inr cb1"
    and 2: "for_each calls (run_call cf) cb1 = Inr cb'"
    by (auto simp: bind_e_Inr)
  note b1 = run_call_border[OF 1]
  have same: "call_marks (border (contour cb1)) x = call_marks (border (contour cb)) x" for x
    using b1 by (intro call_marks_dims) simp_all
  from Cons.IH[OF 2]
  have "bits (border (contour cb')) =
      (bits (border (contour cb)) \<union> call_marks (border (contour cb)) c)
        \<union> (\<Union>x\<in>set calls. call_marks (border (contour cb)) x)"
    and "width (border (contour cb')) = width (border (contour cb))"
    and "height (border (contour cb')) = height (border (contour cb))"
    by (simp_all only: same b1)
  then show ?case by (simp add: Un_assoc)
qed

lemma getFlags_less: "getFlags raster i j < 16"
  by (simp add: getFlags_sum)

lemma ADD_SEGMENT_fields:
  assumes "(t, D, i', j', st, en) \<in> set (map (ADD_SEGMENT t0 i j) tbl)"
  shows "t = t0 \<and> i' = i \<and> j' = j \<and> tbl \<noteq> []"
  using assms by (auto simp: ADD_SEGMENT_def split: prod.splits)

lemma addBorder_table_trivial: "addBorder_table 0 = []" "addBorder_table 15 = []"
  by (simp_all add: addBorder_table_def)

lemma add_table_trivial: "add_table 0 = []" "add_table 15 = []"
  by (simp_all add: add_table_def)

lemma addAmbiguous_table_nonempty:
  "addAmbiguous_table t otype \<noteq> [] \<Longrightarrow> t = 5 \<or> t = 10"
  by (simp add: addAmbiguous_table_def split: if_splits)

lemma marked_corners_saddle: "marked_corners 5 = marked_corners 10"
  by (simp add: marked_corners_def)

lemma cell_calls_shape:
  assumes "(t, D, i', j', st, en) \<in> set (cell_calls cf raster (b, i, j))"
  shows "i' = i \<and> j' = j \<and> getFlags raster i j \<noteq> 0 \<and> getFlags raster i j \<noteq> 15
         \<and> marked_corners t = marked_corners (getFlags raster i j)"
proof -
  let ?c = "getFlags raster i j"
  show ?thesis
  proof (cases "b \<or> (?c \<noteq> 5 \<and> ?c \<noteq> 10)")
    case True
    then obtain tbl where m: "(t, D, i', j', st, en) \<in> set (map (ADD_SEGMENT ?c i j) tbl)"
      and tbl: "tbl = addBorder_table ?c \<or> tbl = add_table ?c"
      using assms by (auto simp: cell_calls_def addBorder_calls_def add_calls_def split: if_splits)
    from ADD_SEGMENT_fields[OF m] have f: "t = ?c" "i' = i" "j' = j" "tbl \<noteq> []"
      by simp_all
    have "?c \<noteq> 0" "?c \<noteq> 15"
      using f(4) tbl addBorder_table_trivial add_table_trivial by metis+
    with f show ?thesis by simp
  next
    case False
    then have c: "?c = 5 \<or> ?c = 10" and nb: "\<not> b" by auto
    let ?t = "ambiguousType cf (i * 2, j * 2) ?c"
    from assms nb c
    have m: "(t, D, i', j', st, en) \<in> set (map (ADD_SEGMENT ?t i j) (addAmbiguous_table ?t ?c))"
      by (auto simp: cell_calls_def add_calls_def addAmbiguous_calls_def Let_def)
    from ADD_SEGMENT_fields[OF m] have f: "t = ?t" "i' = i" "j' = j"
      "addAmbiguous_table ?t ?c \<noteq> []" by simp_all
    from addAmbiguous_table_nonempty[OF f(4)] f(1) have "t = 5 \<or> t = 10" by simp
    with c f(2,3) show ?thesis by (auto simp: marked_corners_saddle)
  qed
qed

text \<open>The sixteen cell codes, as a case rule.\<close>

lemma code_cases [consumes 1, case_names b0000 b0001 b0010 b0011 b0100 b0101 b0110 b0111
    b1000 b1001 b1010 b1011 b1100 b1101 b1110 b1111]:
  fixes t :: CellType
  assumes "t < 16"
  obtains "t = 0" | "t = 1" | "t = 2" | "t = 3" | "t = 4" | "t = 5" | "t = 6" | "t = 7"
    | "t = 8" | "t = 9" | "t = 10" | "t = 11" | "t = 12" | "t = 13" | "t = 14" | "t = 15"
  using assms by atomize_elim presburger

lemma addBorder_table_nonempty:
  assumes "t < 16" "t \<noteq> 0" "t \<noteq> 15"
  shows "addBorder_table t \<noteq> []"
  using assms(1)
  by (cases rule: code_cases) (use assms(2,3) in \<open>simp_all add: addBorder_table_def\<close>)

lemma add_calls_nonempty:
  assumes "t < 16" "t \<noteq> 0" "t \<noteq> 15"
    and "ambiguousType cf (i * 2, j * 2) 5 \<in> {5, 10}"
    and "ambiguousType cf (i * 2, j * 2) 10 \<in> {5, 10}"
  shows "add_calls cf i j t \<noteq> []"
  using assms(1)
  by (cases rule: code_cases)
     (use assms(2-) in \<open>auto simp: add_calls_def add_table_def addAmbiguous_calls_def
        addAmbiguous_table_def Let_def\<close>)

lemma cell_calls_nonempty:
  assumes "oracle_ok cf" and "getFlags raster i j \<noteq> 0" and "getFlags raster i j \<noteq> 15"
  shows "cell_calls cf raster (b, i, j) \<noteq> []"
proof (cases b)
  case True
  then show ?thesis
    using addBorder_table_nonempty[OF getFlags_less assms(2,3)]
    by (simp add: cell_calls_def addBorder_calls_def)
next
  case False
  from assms(1) have "ambiguousType cf (i * 2, j * 2) 5 \<in> {5, 10}"
      "ambiguousType cf (i * 2, j * 2) 10 \<in> {5, 10}"
    by (auto simp: oracle_ok_def)
  from add_calls_nonempty[OF getFlags_less assms(2,3) this] False
  show ?thesis by (simp add: cell_calls_def)
qed

text \<open>
  C4 (as amended). When \<open>find_contour\<close> returns and the oracle answers a saddle
  code with a saddle code, the pixels set in the returned border mask are
  exactly the pixels inside the raster that are, in at least one processed
  cell whose code is neither 0b0000 nor 0b1111, a corner that \<open>setBorder\<close> marks
  for that code: a corner whose bit is set for codes with one bit or two
  adjacent bits, any corner for the saddle and the three-bit codes.
\<close>

theorem border_mask_characterisation:
  assumes "find_contour cf raster = Inr c" and "oracle_ok cf"
  shows "bits (border c) =
     {(i + X, j + Y) | b i j X Y.
        (b, i, j) \<in> set (sweep_cells raster)
        \<and> getFlags raster i j \<noteq> 0 \<and> getFlags raster i j \<noteq> 15
        \<and> (X, Y) \<in> marked_corners (getFlags raster i j)
        \<and> in_range raster (i + X) (j + Y)}"
    (is "_ = ?R")
proof -
  from assms(1) obtain cb where sw: "sweep cf raster = Inr cb" and c: "c = contour cb"
    by (auto simp: find_contour_def bind_e_Inr)
  let ?m0 = "border (contour (new_Builder cf (width raster, height raster)))"
  have m0: "bits ?m0 = {}" "width ?m0 = width raster" "height ?m0 = height raster"
    by (simp_all add: new_Builder_def empty_mask_def)
  from sw have "for_each (sweep_calls cf raster) (run_call cf)
                  (new_Builder cf (width raster, height raster)) = Inr cb"
    by (simp add: sweep_flat)
  from for_each_calls_border[OF this]
  have bits: "bits (border c) = (\<Union>x\<in>set (sweep_calls cf raster). call_marks ?m0 x)"
    by (simp add: m0 c)
  have ir: "in_range ?m0 x y = in_range raster x y" for x y
    by (simp add: in_range_def m0)
  show ?thesis
  proof (rule set_eqI, rule iffI)
    fix p assume "p \<in> bits (border c)"
    then obtain x where x: "x \<in> set (sweep_calls cf raster)" and p: "p \<in> call_marks ?m0 x"
      using bits by auto
    obtain t D i' j' st en where xe: "x = (t, D, i', j', st, en)" by (cases x)
    from x obtain cell where cell: "cell \<in> set (sweep_cells raster)"
      and xc: "x \<in> set (cell_calls cf raster cell)"
      by (auto simp: sweep_calls_def)
    obtain b i j where ce: "cell = (b, i, j)" by (cases cell)
    from p obtain X Y where pe: "p = (i' + X, j' + Y)" and mc: "(X, Y) \<in> marked_corners t"
      and inr: "in_range raster (i' + X) (j' + Y)"
      by (auto simp: xe call_marks_def ir)
    from cell_calls_shape[OF xc[unfolded xe ce]]
    have sh: "i' = i" "j' = j" "getFlags raster i j \<noteq> 0" "getFlags raster i j \<noteq> 15"
      "marked_corners t = marked_corners (getFlags raster i j)"
      by simp_all
    have "(i + X, j + Y) \<in> ?R"
      apply (rule CollectI)
      apply (rule exI[of _ b], rule exI[of _ i], rule exI[of _ j], rule exI[of _ X], rule exI[of _ Y])
      using cell[unfolded ce] sh mc inr by simp
    then show "p \<in> ?R" using pe sh by simp
  next
    fix p assume "p \<in> ?R"
    then obtain b i j X Y where p: "p = (i + X, j + Y)"
      and cell: "(b, i, j) \<in> set (sweep_cells raster)"
      and nz: "getFlags raster i j \<noteq> 0" "getFlags raster i j \<noteq> 15"
      and mc: "(X, Y) \<in> marked_corners (getFlags raster i j)"
      and inr: "in_range raster (i + X) (j + Y)"
      by auto
    from cell_calls_nonempty[OF assms(2) nz, of b]
    obtain x xs where "cell_calls cf raster (b, i, j) = x # xs"
      by (cases "cell_calls cf raster (b, i, j)") simp_all
    then have xc: "x \<in> set (cell_calls cf raster (b, i, j))" by simp
    obtain t D i' j' st en where xe: "x = (t, D, i', j', st, en)" by (cases x)
    from cell_calls_shape[OF xc[unfolded xe]]
    have sh: "i' = i" "j' = j" "marked_corners t = marked_corners (getFlags raster i j)"
      by simp_all
    have "p \<in> call_marks ?m0 x"
      unfolding xe call_marks_def prod.case p sh ir
      apply (rule CollectI)
      apply (rule exI[of _ X], rule exI[of _ Y])
      using mc inr by simp
    moreover from xc cell have "x \<in> set (sweep_calls cf raster)"
      by (auto simp: sweep_calls_def)
    ultimately show "p \<in> bits (border c)" using bits by auto
  qed
qed

theorem border_mask_characterisation_witness:
  "find_contour \<lparr>pixelOrigin = center, joinStraightSegments = True, ambiguousType = (\<lambda>v t. t)\<rparr>
     \<lparr>width = 2, height = 1, bits = {(0, 0)}\<rparr>
     = Inr \<lparr>rings = [[(- 0.5, - 0.5), (0.5, - 0.5), (0.5, 0.5), (- 0.5, 0.5)]],
            border = \<lparr>width = 2, height = 1, bits = {(0, 0)}\<rparr>\<rparr>
   \<and> oracle_ok \<lparr>pixelOrigin = center, joinStraightSegments = True, ambiguousType = (\<lambda>v t. t)\<rparr>
   \<and> bits (border \<lparr>rings = [[(- 0.5, - 0.5), (0.5, - 0.5), (0.5, 0.5), (- 0.5, 0.5)]],
            border = \<lparr>width = 2, height = 1, bits = {(0, 0)}\<rparr>\<rparr>) =
     {(i + X, j + Y) | b i j X Y.
        (b, i, j) \<in> set (sweep_cells \<lparr>width = 2, height = 1, bits = {(0, 0)}\<rparr>)
        \<and> getFlags \<lparr>width = 2, height = 1, bits = {(0, 0)}\<rparr> i j \<noteq> 0
        \<and> getFlags \<lparr>width = 2, height = 1, bits = {(0, 0)}\<rparr> i j \<noteq> 15
        \<and> (X, Y) \<in> marked_corners (getFlags \<lparr>width = 2, height = 1, bits = {(0, 0)}\<rparr> i j)
        \<and> in_range \<lparr>width = 2, height = 1, bits = {(0, 0)}\<rparr> (i + X) (j + Y)}"
proof -
  have a: "find_contour \<lparr>pixelOrigin = center, joinStraightSegments = True, ambiguousType = (\<lambda>v t. t)\<rparr>
     \<lparr>width = 2, height = 1, bits = {(0, 0)}\<rparr>
     = Inr \<lparr>rings = [[(- 0.5, - 0.5), (0.5, - 0.5), (0.5, 0.5), (- 0.5, 0.5)]],
            border = \<lparr>width = 2, height = 1, bits = {(0, 0)}\<rparr>\<rparr>"
    by code_simp
  have b: "oracle_ok \<lparr>pixelOrigin = center, joinStraightSegments = True, ambiguousType = (\<lambda>v t. t)\<rparr>"
    by (simp add: oracle_ok_def)
  from a b border_mask_characterisation[OF a b] show ?thesis
    by (intro conjI)
qed

text \<open>
  C4 as stated fails: in the 2x1 raster \<open>[[1, 0]]\<close> the pixel (1,0) is a corner
  of the processed cell (0,-1), whose code is 0b0001, but it is not marked
  (its own bit in that code is 0).
\<close>

theorem border_mask_counterexample:
  "find_contour \<lparr>pixelOrigin = center, joinStraightSegments = True, ambiguousType = (\<lambda>v t. t)\<rparr>
     \<lparr>width = 2, height = 1, bits = {(0, 0)}\<rparr>
     = Inr \<lparr>rings = [[(- 0.5, - 0.5), (0.5, - 0.5), (0.5, 0.5), (- 0.5, 0.5)]],
            border = \<lparr>width = 2, height = 1, bits = {(0, 0)}\<rparr>\<rparr>
   \<and> (True, 0, - 1) \<in> set (sweep_cells \<lparr>width = 2, height = 1, bits = {(0, 0)}\<rparr>)
   \<and> getFlags \<lparr>width = 2, height = 1, bits = {(0, 0)}\<rparr> 0 (- 1) = 1
   \<and> in_range \<lparr>width = 2, height = 1, bits = {(0, 0)}\<rparr> (0 + 1) (- 1 + 1)
   \<and> (0 + 1, - 1 + 1) \<notin> {(0 :: int, 0 :: int)}"
  by code_simp

end
